theory Spec2Isabelle
  imports Complex_Main "HOL-Library.Word"
begin

section \<open>Host values\<close>

text \<open>
  The bridge (the worker script) and the orchestrator (\<open>main.ts\<close>) run on a JavaScript
  host. Bytes of a \<open>Uint8Array\<close> are 8-bit words; the numbers the kernel passes to the
  bridge are integers (\<open>int\<close>: the host hands them over signed). A host string is
  represented by the sequence of its UTF-8 code units, one \<open>char\<close> each. An exception is
  a value: every bridge call returns the exception it threw, if any, together with the
  host state it left behind.
\<close>

type_synonym byte = "8 word"

datatype js_error = RangeError | AssertionError string

subsection \<open>Typed arrays\<close>

text \<open>
  \<open>relative_index\<close> is the clamping that \<open>slice\<close> applies to both of its arguments: a
  negative index counts from the end, and the result lies in \<open>0 .. len\<close>.
\<close>

definition relative_index :: "int \<Rightarrow> nat \<Rightarrow> nat" where
  "relative_index k len =
     (if k < 0 then nat (max (int len + k) 0) else nat (min k (int len)))"

text \<open>\<open>xs.slice(start, end)\<close>: a fresh array holding the elements from \<open>start\<close> up to \<open>end\<close>.\<close>

definition ta_slice :: "'a list \<Rightarrow> int \<Rightarrow> int \<Rightarrow> 'a list" where
  "ta_slice xs start stop =
     (let from = relative_index start (length xs);
          final = relative_index stop (length xs)
      in take (final - from) (drop from xs))"

text \<open>
  \<open>xs[i] = v\<close> on a typed array: an index outside \<open>0 .. length - 1\<close> is not an element,
  and the assignment does nothing (a typed array never grows).
\<close>

definition ta_store :: "'a list \<Rightarrow> int \<Rightarrow> 'a \<Rightarrow> 'a list" where
  "ta_store xs i v = (if 0 \<le> i \<and> i < int (length xs) then xs[nat i := v] else xs)"

text \<open>The copying loop of \<open>dst.set(src, k)\<close>, element by element.\<close>

fun copy_into :: "'a list \<Rightarrow> nat \<Rightarrow> 'a list \<Rightarrow> 'a list" where
  "copy_into [] k dst = dst"
| "copy_into (x # xs) k dst = copy_into xs (Suc k) (dst[k := x])"

text \<open>
  \<open>dst.set(src, offset)\<close>: a \<open>RangeError\<close>, thrown before anything is copied, when the
  offset is negative or the source does not fit behind it.
\<close>

definition ta_set :: "'a list \<Rightarrow> 'a list \<Rightarrow> int \<Rightarrow> js_error option \<times> 'a list" where
  "ta_set dst src offset =
     (if offset < 0 \<or> int (length dst) < int (length src) + offset
      then (Some RangeError, dst)
      else (None, copy_into src (nat offset) dst))"

subsection \<open>Text\<close>

definition newline :: char where
  "newline = CHR 0x0A"

text \<open>\<open>s.split("\n")\<close>: the pieces between line feeds; the empty string gives one empty piece.\<close>

fun split_lines :: "string \<Rightarrow> string list" where
  "split_lines [] = [[]]"
| "split_lines (c # cs) =
     (if c = newline then [] # split_lines cs
      else (case split_lines cs of
              [] \<Rightarrow> [[c]]
            | l # ls \<Rightarrow> (c # l) # ls))"

text \<open>\<open>ls.join("\n")\<close>.\<close>

fun join_lines :: "string list \<Rightarrow> string" where
  "join_lines [] = []"
| "join_lines [l] = l"
| "join_lines (l # ls) = l @ newline # join_lines ls"

text \<open>
  \<open>new TextEncoder().encode(s)\<close>: the UTF-8 bytes of \<open>s\<close>, and no bytes at all for
  \<open>undefined\<close> (the argument's default is the empty string).
\<close>

definition text_encode :: "string option \<Rightarrow> byte list" where
  "text_encode s = (case s of None \<Rightarrow> [] | Some cs \<Rightarrow> map (\<lambda>c. of_nat (of_char c)) cs)"

section \<open>The syscall bridge\<close>

text \<open>
  What a bridge call can touch outside its own instantiation: the shared memory (seen
  through the \<open>Uint8Array\<close> view \<open>memory\<close>), the console, and the messages posted to the
  orchestrator with \<open>self.postMessage\<close>.
\<close>

datatype console_line = Console_log string | Console_error string

datatype spawn_request =
    Task_request int string
  | Secondary_request int int
  | Other_request string

record host =
  shared_memory :: "byte list"
  console :: "console_line list"
  posted :: "spawn_request list"

text \<open>The message that starts a worker: \<open>ev.data\<close> of the worker's \<open>onmessage\<close>.\<close>

datatype ('module, 'mem) start_message =
    Boot_message 'module 'mem "byte list"
  | Task_message 'module 'mem int
  | Secondary_message 'module 'mem int int

subsection \<open>get\_stacktrace\<close>

text \<open>
  \<open>new Error().stack?.split("\n").slice(5).join("\n")\<close>, encoded. The host's stack text
  is an input (\<open>None\<close> where the host has no \<open>stack\<close> property).
\<close>

definition trimmed_trace :: "string option \<Rightarrow> byte list" where
  "trimmed_trace stack =
     text_encode (map_option (\<lambda>s. join_lines (drop 5 (split_lines s))) stack)"

text \<open>The array handed to \<open>memory.set\<close>: the trace after the marker branch, cut at \<open>size\<close> (written \<open>sz\<close>).\<close>

definition stacktrace_bytes :: "string option \<Rightarrow> int \<Rightarrow> byte list" where
  "stacktrace_bytes stack sz =
     (let trace = trimmed_trace stack;
          trace = (if int (length trace) \<le> sz
                   then ta_store (ta_store (ta_store trace (sz - 1) 46) (sz - 2) 46)
                          (sz - 3) 46
                   else trace)
      in ta_slice trace 0 sz)"

definition get_stacktrace :: "string option \<Rightarrow> int \<Rightarrow> int \<Rightarrow> host \<Rightarrow> js_error option \<times> host" where
  "get_stacktrace stack buf sz h =
     (case ta_set (shared_memory h) (stacktrace_bytes stack sz) buf of
        (thrown, m) \<Rightarrow> (thrown, h\<lparr>shared_memory := m\<rparr>))"

subsection \<open>get\_dt\<close>

text \<open>
  Modelled from the spec: \<open>assert\<close> of \<open>util.ts\<close>, which is not among the sources. A failed
  assertion throws and carries its message; a true one does nothing.
\<close>

definition assert_ts :: "bool \<Rightarrow> string \<Rightarrow> js_error option" where
  "assert_ts cond msg = (if cond then None else Some (AssertionError msg))"

text \<open>The default of \<open>instantiate\<close>'s third parameter.\<close>

definition default_get_dt :: "int \<Rightarrow> int \<Rightarrow> host \<Rightarrow> js_error option \<times> host" where
  "default_get_dt buf sz h =
     (None, h\<lparr>console := console h @ [Console_error ''get_dt called on non-boot thread'']\<rparr>)"

text \<open>The closure the boot case passes: \<open>devicetree\<close> is \<open>ev.data.devicetree\<close>.\<close>

definition boot_get_dt :: "byte list \<Rightarrow> int \<Rightarrow> int \<Rightarrow> host \<Rightarrow> js_error option \<times> host" where
  "boot_get_dt devicetree buf sz h =
     (case assert_ts (int (length devicetree) \<le> sz) ''Device tree truncated'' of
        Some e \<Rightarrow> (Some e, h)
      | None \<Rightarrow>
          (case ta_set (shared_memory h) (ta_slice devicetree 0 sz) buf of
             (thrown, m) \<Rightarrow> (thrown, h\<lparr>shared_memory := m\<rparr>)))"

text \<open>
  \<open>self.onmessage\<close>: which \<open>get_dt\<close> the instantiation of a context is bound to. Only the
  boot case passes one; the task and secondary cases leave the default.
\<close>

fun bound_get_dt ::
  "('module, 'mem) start_message \<Rightarrow> int \<Rightarrow> int \<Rightarrow> host \<Rightarrow> js_error option \<times> host" where
  "bound_get_dt (Boot_message vmlinux mem devicetree) = boot_get_dt devicetree"
| "bound_get_dt (Task_message vmlinux mem task) = default_get_dt"
| "bound_get_dt (Secondary_message vmlinux mem cpu idle) = default_get_dt"

definition is_boot :: "('module, 'mem) start_message \<Rightarrow> bool" where
  "is_boot msg = (case msg of Boot_message _ _ _ \<Rightarrow> True | _ \<Rightarrow> False)"

subsection \<open>Interrupt flag\<close>

text \<open>
  The mutable variables of one call of \<open>instantiate\<close>: \<open>let irqflags = 0\<close>, captured by
  the two closures below and by nothing else.
\<close>

record bridge_vars =
  irqflags :: int

definition instantiate :: bridge_vars where
  "instantiate = \<lparr>irqflags = 0\<rparr>"

definition set_irq_enabled :: "int \<Rightarrow> bridge_vars \<Rightarrow> bridge_vars" where
  "set_irq_enabled flags inst = inst\<lparr>irqflags := flags\<rparr>"

definition get_irq_enabled :: "bridge_vars \<Rightarrow> int" where
  "get_irq_enabled inst = irqflags inst"

text \<open>
  Several instantiations side by side, named by numbers; each starts as \<open>instantiate\<close>
  leaves it. A run is a sequence of \<open>set_irq_enabled\<close> calls, each made by the kernel
  code of one instantiation, in the order in which they happen.
\<close>

type_synonym instances = "nat \<Rightarrow> bridge_vars"

definition fresh_instances :: instances where
  "fresh_instances = (\<lambda>_. instantiate)"

fun run_irq_calls :: "(nat \<times> int) list \<Rightarrow> instances \<Rightarrow> instances" where
  "run_irq_calls [] insts = insts"
| "run_irq_calls ((k, flags) # calls) insts =
     run_irq_calls calls (insts(k := set_irq_enabled flags (insts k)))"

text \<open>The flags that instantiation \<open>k\<close> itself passed, oldest first.\<close>

definition own_flags :: "nat \<Rightarrow> (nat \<times> int) list \<Rightarrow> int list" where
  "own_flags k calls = map snd (filter (\<lambda>c. fst c = k) calls)"

subsection \<open>get\_now\_nsec\<close>

text \<open>
  \<open>Math.round\<close>: the nearest integer, a tie going up. \<open>BigInt\<close> of the result is that
  integer.
\<close>

definition math_round :: "real \<Rightarrow> int" where
  "math_round x = \<lfloor>x + 1 / 2\<rfloor>"

text \<open>
  \<open>BigInt(Math.round((performance.now() + performance.timeOrigin) * 200)) * 5000n\<close>.
  The two clock readings are inputs. The sum and the product are floating-point
  operations: each yields the exact result rounded to a representable number, and \<open>fl\<close>
  is that rounding.
\<close>

definition get_now_nsec :: "(real \<Rightarrow> real) \<Rightarrow> real \<Rightarrow> real \<Rightarrow> int" where
  "get_now_nsec fl timeOrigin now = math_round (fl (fl (now + timeOrigin) * 200)) * 5000"

subsection \<open>new\_worker and bringup\_secondary\<close>

text \<open>
  \<open>decode\<close> is \<open>new TextDecoder().decode\<close>, the host's reading of bytes as text.
\<close>

definition new_worker ::
  "(byte list \<Rightarrow> string) \<Rightarrow> int \<Rightarrow> int \<Rightarrow> int \<Rightarrow> host \<Rightarrow> js_error option \<times> host" where
  "new_worker decode task comm commLen h =
     (let name = decode (ta_slice (shared_memory h) comm (comm + commLen))
      in (None, h\<lparr>posted := posted h @ [Task_request task name]\<rparr>))"

definition bringup_secondary :: "int \<Rightarrow> int \<Rightarrow> host \<Rightarrow> js_error option \<times> host" where
  "bringup_secondary cpu idle h = (None, h\<lparr>posted := posted h @ [Secondary_request cpu idle]\<rparr>)"

section \<open>The orchestrator\<close>

text \<open>
  The state of \<open>main.ts\<close> is the history of what it did to its workers. A worker is named
  by the number of workers created before it.
\<close>

datatype ('module, 'mem) event =
    Worker_created nat string
  | Listener_attached nat
  | Message_posted nat "('module, 'mem) start_message"

fun is_created :: "('module, 'mem) event \<Rightarrow> bool" where
  "is_created (Worker_created w name) = True"
| "is_created (Listener_attached w) = False"
| "is_created (Message_posted w msg) = False"

definition worker_count :: "('module, 'mem) event list \<Rightarrow> nat" where
  "worker_count hist = length (filter is_created hist)"

text \<open>\<open>new Worker(url, {name, type})\<close>.\<close>

definition new_Worker :: "string \<Rightarrow> ('module, 'mem) event list \<Rightarrow> nat \<times> ('module, 'mem) event list" where
  "new_Worker name hist = (worker_count hist, hist @ [Worker_created (worker_count hist) name])"

text \<open>\<open>worker.postMessage(msg)\<close>.\<close>

definition postMessage ::
  "nat \<Rightarrow> ('module, 'mem) start_message \<Rightarrow> ('module, 'mem) event list \<Rightarrow> ('module, 'mem) event list" where
  "postMessage w msg hist = hist @ [Message_posted w msg]"

text \<open>
  \<open>listen(worker)\<close> sets \<open>worker.onmessage\<close> and returns the worker. The handler it sets is
  \<open>on_worker_message\<close> below: its \<open>switch\<close> on \<open>ev.data.type\<close>, with no case for any other
  type.
\<close>

definition listen :: "nat \<Rightarrow> ('module, 'mem) event list \<Rightarrow> nat \<times> ('module, 'mem) event list" where
  "listen w hist = (w, hist @ [Listener_attached w])"

fun on_worker_message ::
  "'module \<Rightarrow> 'mem \<Rightarrow> spawn_request \<Rightarrow> ('module, 'mem) event list \<Rightarrow> ('module, 'mem) event list" where
  "on_worker_message vmlinux mem (Task_request task name) hist =
     (case new_Worker name hist of (w, hist1) \<Rightarrow>
        (case listen w hist1 of (w', hist2) \<Rightarrow>
           postMessage w' (Task_message vmlinux mem task) hist2))"
| "on_worker_message vmlinux mem (Secondary_request cpu idle) hist =
     (case new_Worker ''secondary'' hist of (w, hist1) \<Rightarrow>
        (case listen w hist1 of (w', hist2) \<Rightarrow>
           postMessage w' (Secondary_message vmlinux mem cpu idle) hist2))"
| "on_worker_message vmlinux mem (Other_request ty) hist = hist"

text \<open>
  A message arriving from worker \<open>w\<close>: the handler runs if \<open>w.onmessage\<close> has been set, and
  the message is dropped otherwise.
\<close>

definition deliver ::
  "'module \<Rightarrow> 'mem \<Rightarrow> nat \<times> spawn_request \<Rightarrow> ('module, 'mem) event list \<Rightarrow> ('module, 'mem) event list" where
  "deliver vmlinux mem ev hist =
     (if Listener_attached (fst ev) \<in> set hist then on_worker_message vmlinux mem (snd ev) hist
      else hist)"

text \<open>The last statement of \<open>main.ts\<close>: the boot worker.\<close>

definition start_boot :: "'module \<Rightarrow> 'mem \<Rightarrow> byte list \<Rightarrow> ('module, 'mem) event list" where
  "start_boot vmlinux mem devicetree =
     (case new_Worker ''boot'' [] of (w, hist1) \<Rightarrow>
        (case listen w hist1 of (w', hist2) \<Rightarrow>
           postMessage w' (Boot_message vmlinux mem devicetree) hist2))"

text \<open>The orchestrator's whole run: boot, then the messages in the order they arrive.\<close>

fun deliver_all ::
  "'module \<Rightarrow> 'mem \<Rightarrow> (nat \<times> spawn_request) list \<Rightarrow> ('module, 'mem) event list \<Rightarrow> ('module, 'mem) event list" where
  "deliver_all vmlinux mem [] hist = hist"
| "deliver_all vmlinux mem (ev # evs) hist = deliver_all vmlinux mem evs (deliver vmlinux mem ev hist)"

definition orchestrate ::
  "'module \<Rightarrow> 'mem \<Rightarrow> byte list \<Rightarrow> (nat \<times> spawn_request) list \<Rightarrow> ('module, 'mem) event list" where
  "orchestrate vmlinux mem devicetree evs = deliver_all vmlinux mem evs (start_boot vmlinux mem devicetree)"

subsection \<open>The tree handed to generateDeviceTree\<close>

datatype dt_entry =
    Dt_bytes "byte list"
  | Dt_string string
  | Dt_numbers "int list"
  | Dt_node "(string \<times> dt_entry) list"







section \<open>The device-tree encoder and a reference decoder\<close>

text \<open>
  \<open>devicetree.ts\<close>, which holds \<open>generateDeviceTree\<close>, is not among the sources, and
  neither is a decoder. Both are written here from the specification: the blob is the
  canonical flattened format, a header of ten big-endian 32-bit fields, a zero-terminated
  memory-reservation list, a structure block of begin-node, property, end-node and end
  tokens, each on a 4-byte boundary, and after it a flat table of the property names. The
  input is the tree as \<open>main.ts\<close> writes it: a node is a list of keys, each with a property
  value (raw bytes, a string or a sequence of numbers) or with a child node.
\<close>

datatype fdt_error = EncodingError

text \<open>
  Modelled from the spec: the node/property structure that a blob holds and a decoder
  yields. A node has its properties, each a name with its payload bytes, and its child
  nodes, each with its name.
\<close>

datatype fdt_node = Fdt_node "(string \<times> byte list) list" "(string \<times> fdt_node) list"

text \<open>Modelled from the spec: a character of a name as a byte, and back.\<close>

definition byte_of_char :: "char \<Rightarrow> byte" where
  "byte_of_char c = of_nat (of_char c)"

definition char_of_byte :: "byte \<Rightarrow> char" where
  "char_of_byte b = char_of (unat b)"

text \<open>Modelled from the spec: a big-endian 32-bit cell, written and read.\<close>

definition be32 :: "nat \<Rightarrow> byte list" where
  "be32 n = [of_nat (n div 16777216), of_nat (n div 65536), of_nat (n div 256), of_nat n]"

fun read_u32 :: "byte list \<Rightarrow> (nat \<times> byte list) option" where
  "read_u32 (a # b # c # d # rest) =
     Some (((unat a * 256 + unat b) * 256 + unat c) * 256 + unat d, rest)"
| "read_u32 _ = None"

text \<open>Modelled from the spec: the number of padding bytes that brings \<open>n\<close> to a multiple of 4.\<close>

definition pad4 :: "nat \<Rightarrow> nat" where
  "pad4 n = (4 - n mod 4) mod 4"

text \<open>Modelled from the spec: a number that fits the fixed cell width of 32 bits.\<close>

definition in_cell_range :: "int \<Rightarrow> bool" where
  "in_cell_range n = (0 \<le> n \<and> n < 4294967296)"

fun is_node :: "dt_entry \<Rightarrow> bool" where
  "is_node (Dt_node es) = True"
| "is_node _ = False"

text \<open>
  Modelled from the spec: the payload of a property value. Raw bytes stand as they are, a
  string is null-terminated, and numbers become big-endian 32-bit cells.
\<close>

fun payload :: "dt_entry \<Rightarrow> byte list" where
  "payload (Dt_bytes bs) = bs"
| "payload (Dt_string s) = map byte_of_char s @ [0]"
| "payload (Dt_numbers ns) = concat (map (\<lambda>n. be32 (nat n)) ns)"
| "payload (Dt_node es) = []"

text \<open>
  Modelled from the spec: the node/property structure of an input tree. The flattened
  format puts the properties of a node before its child nodes; each group keeps the order
  of the input.
\<close>

fun node_of :: "dt_entry \<Rightarrow> fdt_node" where
  "node_of (Dt_node es) =
     Fdt_node (map (\<lambda>p. (fst p, payload (snd p))) (filter (\<lambda>p. \<not> is_node (snd p)) es))
              (map (\<lambda>p. (fst p, node_of (snd p))) (filter (\<lambda>p. is_node (snd p)) es))"
| "node_of e = Fdt_node [] []"

text \<open>
  Modelled from the spec: the first error condition, a number that cannot be represented
  in the cell width.
\<close>

fun cells_ok :: "dt_entry \<Rightarrow> bool" where
  "cells_ok (Dt_numbers ns) = list_all in_cell_range ns"
| "cells_ok (Dt_node es) = list_all (\<lambda>p. cells_ok (snd p)) es"
| "cells_ok e = True"

text \<open>
  Modelled from the spec: names are written null-terminated, so a name of a valid tree
  holds no null character.
\<close>

definition nul_free :: "string \<Rightarrow> bool" where
  "nul_free s = (CHR 0x00 \<notin> set s)"

fun names_ok :: "dt_entry \<Rightarrow> bool" where
  "names_ok (Dt_node es) = list_all (\<lambda>p. nul_free (fst p) \<and> names_ok (snd p)) es"
| "names_ok e = True"

text \<open>
  Modelled from the spec: the string table. It holds every property name once,
  null-terminated; a property token refers to its name by the name's offset in the table.
\<close>

fun prop_names :: "fdt_node \<Rightarrow> string list" where
  "prop_names (Fdt_node props children) =
     map fst props @ concat (map (\<lambda>c. prop_names (snd c)) children)"

definition strings_block :: "string list \<Rightarrow> byte list" where
  "strings_block names = concat (map (\<lambda>n. map byte_of_char n @ [0]) names)"

fun name_offset :: "string list \<Rightarrow> string \<Rightarrow> nat" where
  "name_offset [] k = 0"
| "name_offset (n # ns) k = (if n = k then 0 else length n + 1 + name_offset ns k)"

text \<open>
  Modelled from the spec: the tokens of the structure block. A property token carries
  the offset of its name and its payload; the payload's length is written with it.
\<close>

datatype token =
    Tok_begin_node string
  | Tok_end_node
  | Tok_prop nat "byte list"
  | Tok_nop

text \<open>Modelled from the spec: the token stream of a node, properties before child nodes.\<close>

fun emit :: "string list \<Rightarrow> string \<Rightarrow> fdt_node \<Rightarrow> token list" where
  "emit names name (Fdt_node props children) =
     Tok_begin_node name
       # map (\<lambda>p. Tok_prop (name_offset names (fst p)) (snd p)) props
       @ concat (map (\<lambda>c. emit names (fst c) (snd c)) children)
       @ [Tok_end_node]"

text \<open>
  Modelled from the spec: the bytes of a token, padded to a 4-byte boundary. The tags are
  those of the canonical format: 1 begins a node, 2 ends one, 3 is a property, 4 is a
  no-op, and 9 ends the block.
\<close>

fun token_bytes :: "token \<Rightarrow> byte list" where
  "token_bytes (Tok_begin_node name) =
     be32 1 @ map byte_of_char name @ [0] @ replicate (pad4 (length name + 1)) 0"
| "token_bytes Tok_end_node = be32 2"
| "token_bytes (Tok_prop nameoff v) =
     be32 3 @ be32 (length v) @ be32 nameoff @ v @ replicate (pad4 (length v)) 0"
| "token_bytes Tok_nop = be32 4"

definition structure_block :: "token list \<Rightarrow> byte list" where
  "structure_block toks = concat (map token_bytes toks) @ be32 9"

text \<open>
  Modelled from the spec: the header. In the order of the canonical format: magic, total
  size, offset of the structure block, offset of the string table, offset of the
  reservation list, version, last compatible version, boot CPU, size of the string table,
  size of the structure block. The reservation list stands at 40 and is empty but for its
  16-byte terminator, so the structure block stands at 56.
\<close>

definition fdt_header :: "nat \<Rightarrow> nat \<Rightarrow> byte list" where
  "fdt_header size_struct size_strings =
     be32 0xd00dfeed @ be32 (56 + size_struct + size_strings) @ be32 56
       @ be32 (56 + size_struct) @ be32 40 @ be32 17 @ be32 16 @ be32 0
       @ be32 size_strings @ be32 size_struct"

text \<open>
  Modelled from the spec: \<open>generateDeviceTree\<close> of \<open>devicetree.ts\<close>. It fails with
  \<open>EncodingError\<close> on a number that does not fit a cell and on a total size above the
  declared maximum \<open>max_size\<close>; otherwise the blob is the header, the reservation list, the
  structure block and the string table.
\<close>

definition generateDeviceTree :: "nat \<Rightarrow> (string \<times> dt_entry) list \<Rightarrow> fdt_error + byte list" where
  "generateDeviceTree max_size tree =
     (if \<not> cells_ok (Dt_node tree) then Inl EncodingError
      else
        let rootn = node_of (Dt_node tree);
            names = remdups (prop_names rootn);
            strings = strings_block names;
            struct = structure_block (emit names [] rootn)
        in if max_size < 56 + length struct + length strings then Inl EncodingError
           else Inr (fdt_header (length struct) (length strings) @ replicate 16 0
                       @ struct @ strings))"

text \<open>Modelled from the spec: the total size of the blob of a tree.\<close>

definition encoded_size :: "(string \<times> dt_entry) list \<Rightarrow> nat" where
  "encoded_size tree =
     (let rootn = node_of (Dt_node tree);
          names = remdups (prop_names rootn)
      in 56 + length (structure_block (emit names [] rootn)) + length (strings_block names))"

text \<open>
  Modelled from the spec: a valid input tree. Its names can be written null-terminated,
  its numbers fit a cell, and its blob is within the declared maximum.
\<close>

definition valid_tree :: "nat \<Rightarrow> (string \<times> dt_entry) list \<Rightarrow> bool" where
  "valid_tree max_size tree =
     (names_ok (Dt_node tree) \<and> cells_ok (Dt_node tree) \<and> encoded_size tree \<le> max_size)"

subsection \<open>The reference decoder\<close>

text \<open>Modelled from the spec: the bytes up to the first null byte.\<close>

fun take_cstring :: "byte list \<Rightarrow> byte list option" where
  "take_cstring [] = None"
| "take_cstring (b # bs) = (if b = 0 then Some [] else map_option (Cons b) (take_cstring bs))"

text \<open>Modelled from the spec: the name at an offset of the string table.\<close>

definition cstring_at :: "byte list \<Rightarrow> nat \<Rightarrow> string option" where
  "cstring_at strings off = map_option (map char_of_byte) (take_cstring (drop off strings))"

text \<open>
  Modelled from the spec: reading the structure block token by token, up to the end tag,
  which must be the block's last. Every token takes at least four bytes, so the block's
  length is fuel enough; \<open>None\<close> is a malformed block.
\<close>

fun lex_tokens :: "nat \<Rightarrow> byte list \<Rightarrow> token list option" where
  "lex_tokens 0 bs = None"
| "lex_tokens (Suc fuel) bs =
     (case read_u32 bs of
        None \<Rightarrow> None
      | Some (tag, rest) \<Rightarrow>
          if tag = 1 then
            (case take_cstring rest of
               None \<Rightarrow> None
             | Some name \<Rightarrow>
                 let used = length name + 1 + pad4 (length name + 1)
                 in if length rest < used then None
                    else map_option (Cons (Tok_begin_node (map char_of_byte name)))
                           (lex_tokens fuel (drop used rest)))
          else if tag = 2 then map_option (Cons Tok_end_node) (lex_tokens fuel rest)
          else if tag = 3 then
            (case read_u32 rest of
               None \<Rightarrow> None
             | Some (len, rest1) \<Rightarrow>
                 (case read_u32 rest1 of
                    None \<Rightarrow> None
                  | Some (nameoff, rest2) \<Rightarrow>
                      let used = len + pad4 len
                      in if length rest2 < used then None
                         else map_option (Cons (Tok_prop nameoff (take len rest2)))
                                (lex_tokens fuel (drop used rest2))))
          else if tag = 4 then map_option (Cons Tok_nop) (lex_tokens fuel rest)
          else if tag = 9 then (if rest = [] then Some [] else None)
          else None)"

text \<open>
  Modelled from the spec: building the tree from the tokens. The stack holds the nodes
  that are open, innermost first, each with its name, its properties and its child nodes
  so far; under them lies a frame that receives the root node. A property after a child node,
  an end without a begin, and a name offset outside the string table are malformed.
\<close>

type_synonym frame = "string \<times> (string \<times> byte list) list \<times> (string \<times> fdt_node) list"

fun parse_tokens :: "byte list \<Rightarrow> token list \<Rightarrow> frame list \<Rightarrow> fdt_node option" where
  "parse_tokens strings [] stack =
     (case stack of
        [(nm, [], [(root_name, rootn)])] \<Rightarrow> if root_name = [] then Some rootn else None
      | _ \<Rightarrow> None)"
| "parse_tokens strings (Tok_begin_node name # toks) stack =
     parse_tokens strings toks ((name, [], []) # stack)"
| "parse_tokens strings (Tok_prop nameoff v # toks) stack =
     (case stack of
        (nm, props, []) # below \<Rightarrow>
          (case cstring_at strings nameoff of
             None \<Rightarrow> None
           | Some k \<Rightarrow> parse_tokens strings toks ((nm, props @ [(k, v)], []) # below))
      | _ \<Rightarrow> None)"
| "parse_tokens strings (Tok_end_node # toks) stack =
     (case stack of
        (nm, props, children) # (nm', props', children') # below \<Rightarrow>
          parse_tokens strings toks
            ((nm', props', children' @ [(nm, Fdt_node props children)]) # below)
      | _ \<Rightarrow> None)"
| "parse_tokens strings (Tok_nop # toks) stack = parse_tokens strings toks stack"

text \<open>
  Modelled from the spec: the reference decoder. It reads the header, checks the magic,
  the total size against the blob and the version, cuts the structure block and the
  string table out of the blob by the header's offsets and sizes, and parses.
\<close>

definition fdt_parse :: "byte list \<Rightarrow> fdt_node option" where
  "fdt_parse blob =
     (case read_u32 blob of
        None \<Rightarrow> None
      | Some (magic, _) \<Rightarrow>
     (case read_u32 (drop 4 blob) of
        None \<Rightarrow> None
      | Some (totalsize, _) \<Rightarrow>
     (case read_u32 (drop 8 blob) of
        None \<Rightarrow> None
      | Some (off_struct, _) \<Rightarrow>
     (case read_u32 (drop 12 blob) of
        None \<Rightarrow> None
      | Some (off_strings, _) \<Rightarrow>
     (case read_u32 (drop 20 blob) of
        None \<Rightarrow> None
      | Some (version, _) \<Rightarrow>
     (case read_u32 (drop 24 blob) of
        None \<Rightarrow> None
      | Some (last_comp_version, _) \<Rightarrow>
     (case read_u32 (drop 32 blob) of
        None \<Rightarrow> None
      | Some (size_strings, _) \<Rightarrow>
     (case read_u32 (drop 36 blob) of
        None \<Rightarrow> None
      | Some (size_struct, _) \<Rightarrow>
          if magic \<noteq> 0xd00dfeed \<or> totalsize \<noteq> length blob \<or> version < 17
             \<or> 17 < last_comp_version \<or> totalsize < off_struct + size_struct
             \<or> totalsize < off_strings + size_strings
          then None
          else
            let struct = take size_struct (drop off_struct blob);
                strings = take size_strings (drop off_strings blob)
            in (case lex_tokens (length struct) struct of
                  None \<Rightarrow> None
                | Some toks \<Rightarrow> parse_tokens strings toks [([], [], [])])))))))))"

text \<open>
  Modelled from the spec: reading a payload back at the kind its property was given as.
  The blob holds no kinds; the first argument tells the kind and nothing else.
\<close>

fun read_cells :: "byte list \<Rightarrow> int list option" where
  "read_cells [] = Some []"
| "read_cells (a # b # c # d # rest) =
     map_option (Cons (int (((unat a * 256 + unat b) * 256 + unat c) * 256 + unat d)))
       (read_cells rest)"
| "read_cells bs = None"

fun decode_as :: "dt_entry \<Rightarrow> byte list \<Rightarrow> dt_entry option" where
  "decode_as (Dt_bytes old) bs = Some (Dt_bytes bs)"
| "decode_as (Dt_string old) bs =
     (if bs \<noteq> [] \<and> last bs = 0 then Some (Dt_string (map char_of_byte (butlast bs)))
      else None)"
| "decode_as (Dt_numbers old) bs = map_option Dt_numbers (read_cells bs)"
| "decode_as (Dt_node old) bs = None"

subsection \<open>Well-formedness of what the encoder writes\<close>

fun token_ok :: "token \<Rightarrow> bool" where
  "token_ok (Tok_begin_node name) = nul_free name"
| "token_ok (Tok_prop nameoff v) = (nameoff < 4294967296 \<and> length v < 4294967296)"
| "token_ok Tok_end_node = True"
| "token_ok Tok_nop = True"

fun fdt_names_ok :: "fdt_node \<Rightarrow> bool" where
  "fdt_names_ok (Fdt_node props children) =
     (list_all (\<lambda>p. nul_free (fst p)) props
      \<and> list_all (\<lambda>c. nul_free (fst c) \<and> fdt_names_ok (snd c)) children)"

fun token_shape_ok :: "string list \<Rightarrow> token \<Rightarrow> bool" where
  "token_shape_ok names (Tok_begin_node name) = nul_free name"
| "token_shape_ok names (Tok_prop nameoff v) = (nameoff < length (strings_block names))"
| "token_shape_ok names Tok_end_node = True"
| "token_shape_ok names Tok_nop = True"

section \<open>Example inputs\<close>

definition example_stack :: string where
  "example_stack =
     join_lines [''Error'', ''at get_stacktrace'', ''at wasm'', ''at wasm'', ''at worker'',
                 ''abcdefghij'']"

definition blank_host :: host where
  "blank_host =
     \<lparr>shared_memory = [0, 0, 0, 0, 0, 0, 0, 0, 0, 0, 0, 0], console = [], posted = []\<rparr>"

definition ascii_decode :: "byte list \<Rightarrow> string" where
  "ascii_decode bs = map (\<lambda>b. char_of (unat b)) bs"

definition name_host :: host where
  "name_host =
     \<lparr>shared_memory = [0, 0, 119, 111, 114, 107, 101, 114, 45, 97, 0, 0], console = [],
      posted = []\<rparr>"

definition example_requests :: "(nat \<times> spawn_request) list" where
  "example_requests = [(0, Task_request 7 ''worker-a''), (1, Secondary_request 2 99)]"

definition small_tree :: "(string \<times> dt_entry) list" where
  "small_tree =
     [(''chosen'', Dt_node [(''rng-seed'', Dt_bytes [1, 2, 3, 4, 5]),
                            (''bootargs'', Dt_string ''no_hash_pointers'')]),
      (''aliases'', Dt_node []),
      (''memory'', Dt_node [(''device_type'', Dt_string ''memory''),
                            (''reg'', Dt_numbers [0, 67108864])])]"

section \<open>Properties of a history\<close>

text \<open>
  Every start message stands behind the attachment of its worker's listener, and every
  worker created has a listener.
\<close>

definition posts_after_listen :: "('module, 'mem) event list \<Rightarrow> bool" where
  "posts_after_listen hist =
     (\<forall>i \<in> {..<length hist}.
        (case hist ! i of
           Message_posted w msg \<Rightarrow> Listener_attached w \<in> set (take i hist)
         | _ \<Rightarrow> True))"

definition all_listened :: "('module, 'mem) event list \<Rightarrow> bool" where
  "all_listened hist =
     (\<forall>e \<in> set hist.
        (case e of
           Worker_created w name \<Rightarrow> Listener_attached w \<in> set hist
         | _ \<Rightarrow> True))"

section \<open>Typed array facts\<close>

lemma relative_index_le: "relative_index k len \<le> len"
  unfolding relative_index_def by (cases "k < 0") auto

lemma relative_index_nonneg: "0 \<le> k \<Longrightarrow> relative_index k len = min (nat k) len"
  by (simp add: relative_index_def)

lemma ta_slice_prefix: "0 \<le> n \<Longrightarrow> ta_slice xs 0 n = take (nat n) xs"
  by (simp add: ta_slice_def relative_index_def min_def)

lemma length_ta_store [simp]: "length (ta_store xs i v) = length xs"
  by (simp add: ta_store_def)

lemma length_copy_into [simp]: "length (copy_into src k dst) = length dst"
  by (induction src arbitrary: k dst) simp_all

lemma copy_into_outside:
  "j < k \<or> k + length src \<le> j \<Longrightarrow> copy_into src k dst ! j = dst ! j"
  by (induction src arbitrary: k dst) auto

lemma copy_into_inside:
  "k + length src \<le> length dst \<Longrightarrow> i < length src \<Longrightarrow> copy_into src k dst ! (k + i) = src ! i"
proof (induction src arbitrary: k dst i)
  case Nil
  then show ?case by simp
next
  case (Cons x xs)
  show ?case
  proof (cases i)
    case 0
    have "copy_into xs (Suc k) (dst[k := x]) ! k = dst[k := x] ! k"
      by (rule copy_into_outside) simp
    with 0 Cons.prems show ?thesis by simp
  next
    case (Suc i')
    with Cons.prems have "copy_into xs (Suc k) (dst[k := x]) ! (Suc k + i') = xs ! i'"
      by (intro Cons.IH) simp_all
    with Suc show ?thesis by simp
  qed
qed

lemma copy_into_eq:
  "k + length src \<le> length dst \<Longrightarrow>
   copy_into src k dst = take k dst @ src @ drop (k + length src) dst"
proof (rule nth_equalityI)
  assume fits: "k + length src \<le> length dst"
  then show "length (copy_into src k dst) = length (take k dst @ src @ drop (k + length src) dst)"
    by simp
  fix j
  assume "j < length (copy_into src k dst)"
  then have j: "j < length dst" by simp
  consider "j < k" | "k \<le> j" "j < k + length src" | "k + length src \<le> j" by linarith
  then show "copy_into src k dst ! j = (take k dst @ src @ drop (k + length src) dst) ! j"
  proof cases
    case 1
    with fits show ?thesis by (simp add: copy_into_outside nth_append)
  next
    case 2
    then have "copy_into src k dst ! (k + (j - k)) = src ! (j - k)"
      using fits by (intro copy_into_inside) simp_all
    moreover from 2 have "j - k < length src" by linarith
    ultimately show ?thesis using 2 fits by (simp add: nth_append)
  next
    case 3
    then have "\<not> j - k < length src" by linarith
    with 3 fits j show ?thesis by (simp add: copy_into_outside nth_append)
  qed
qed

lemma length_stacktrace_bytes: "0 \<le> sz \<Longrightarrow> length (stacktrace_bytes stack sz) \<le> nat sz"
  by (simp add: stacktrace_bytes_def Let_def ta_slice_prefix)

lemma ta_set_length: "length (snd (ta_set dst src k)) = length dst"
  by (simp add: ta_set_def)

lemma ta_set_frame:
  "int j < k \<or> k + int (length src) \<le> int j \<Longrightarrow> snd (ta_set dst src k) ! j = dst ! j"
  by (auto simp: ta_set_def intro!: copy_into_outside)

section \<open>get\_stacktrace\<close>

text \<open>A trace longer than the capacity is cut at the capacity and nothing else.\<close>

lemma stacktrace_bytes_unmarked:
  "0 \<le> sz \<Longrightarrow> sz < int (length (trimmed_trace stack)) \<Longrightarrow>
   stacktrace_bytes stack sz = take (nat sz) (trimmed_trace stack)"
  by (simp add: stacktrace_bytes_def Let_def ta_slice_prefix)

text \<open>
  Claim C1. \<open>get_stacktrace\<close> is to leave a trace shorter than the capacity as it is and
  to end a trace that fills or exceeds the capacity with three \<open>.\<close> bytes (46). The code
  tests \<open>size >= trace.byteLength\<close> before it writes the marker, so it does neither. The
  trimmed trace of \<open>example_stack\<close> is the ten bytes of \<open>abcdefghij\<close>. With capacity 5
  the trace exceeds the capacity and the five bytes written are \<open>abcde\<close>, with no marker;
  with capacity 11 the trace is shorter than the capacity and the bytes written are
  \<open>abcdefgh..\<close>, the trace with its last two bytes overwritten.
\<close>

theorem get_stacktrace_marker_misplaced:
  "trimmed_trace (Some example_stack) = [97, 98, 99, 100, 101, 102, 103, 104, 105, 106]
   \<and> get_stacktrace (Some example_stack) 1 5 blank_host
       = (None, blank_host\<lparr>shared_memory := [0, 97, 98, 99, 100, 101, 0, 0, 0, 0, 0, 0]\<rparr>)
   \<and> get_stacktrace (Some example_stack) 1 11 blank_host
       = (None, blank_host\<lparr>shared_memory :=
                  [0, 97, 98, 99, 100, 101, 102, 103, 104, 46, 46, 0]\<rparr>)"
  by code_simp

text \<open>
  Claim C9. For every call \<open>get_stacktrace(offset, capacity)\<close> whose capacity is a byte
  count (not negative), the array handed to \<open>memory.set\<close> holds at most \<open>capacity\<close> bytes,
  the memory keeps its length, and every byte before \<open>offset\<close> or at or past
  \<open>offset + capacity\<close> is what it was, for every trace and whether or not the call
  throws. The console and the posted messages are untouched.
\<close>

theorem get_stacktrace_capacity_bound:
  assumes "0 \<le> sz"
  shows "length (stacktrace_bytes stack sz) \<le> nat sz
       \<and> length (shared_memory (snd (get_stacktrace stack buf sz h))) = length (shared_memory h)
       \<and> (\<forall>j. int j < buf \<or> buf + sz \<le> int j \<longrightarrow>
             shared_memory (snd (get_stacktrace stack buf sz h)) ! j = shared_memory h ! j)
       \<and> console (snd (get_stacktrace stack buf sz h)) = console h
       \<and> posted (snd (get_stacktrace stack buf sz h)) = posted h"
proof -
  let ?bytes = "stacktrace_bytes stack sz"
  have len: "length ?bytes \<le> nat sz"
    using assms by (rule length_stacktrace_bytes)
  have mem: "shared_memory (snd (get_stacktrace stack buf sz h))
      = snd (ta_set (shared_memory h) ?bytes buf)"
    by (simp add: get_stacktrace_def split: prod.splits)
  have frame: "shared_memory (snd (get_stacktrace stack buf sz h)) ! j = shared_memory h ! j"
    if "int j < buf \<or> buf + sz \<le> int j" for j
  proof -
    from that len assms have "int j < buf \<or> buf + int (length ?bytes) \<le> int j" by linarith
    then show ?thesis unfolding mem by (rule ta_set_frame)
  qed
  show ?thesis
    using len frame
    by (simp add: mem ta_set_length) (simp add: get_stacktrace_def split: prod.splits)
qed

theorem get_stacktrace_capacity_bound_witness:
  "(0::int) \<le> 5
   \<and> length (stacktrace_bytes (Some example_stack) 5) \<le> nat 5
   \<and> length (shared_memory (snd (get_stacktrace (Some example_stack) 1 5 blank_host))) = 12
   \<and> shared_memory (snd (get_stacktrace (Some example_stack) 1 5 blank_host)) ! 6 = 0
   \<and> shared_memory (snd (get_stacktrace (Some example_stack) 1 5 blank_host)) ! 0 = 0"
proof -
  have nonneg: "(0::int) \<le> 5" by simp
  note inst = get_stacktrace_capacity_bound [OF nonneg, of "Some example_stack" 1 blank_host]
  from inst have "length (stacktrace_bytes (Some example_stack) 5) \<le> nat 5"
    and "length (shared_memory (snd (get_stacktrace (Some example_stack) 1 5 blank_host)))
      = length (shared_memory blank_host)"
    by blast+
  moreover from inst
  have "shared_memory (snd (get_stacktrace (Some example_stack) 1 5 blank_host)) ! 6
      = shared_memory blank_host ! 6"
    by (simp del: One_nat_def)
  moreover from inst
  have "shared_memory (snd (get_stacktrace (Some example_stack) 1 5 blank_host)) ! 0
      = shared_memory blank_host ! 0"
    by (simp del: One_nat_def)
  ultimately show ?thesis by (simp add: blank_host_def)
qed

section \<open>get\_dt\<close>

text \<open>
  Claim C3. In the boot context, a call \<open>get_dt(offset, capacity)\<close> with a capacity below
  the blob's length fails with the assertion \<open>Device tree truncated\<close> and leaves the host
  state as it was. With a capacity of at least the blob's length, and the blob's region
  \<open>[offset, offset + length)\<close> inside the shared memory, the call returns and the memory
  is the old one with exactly that region replaced by the blob.
\<close>

theorem boot_get_dt_contract:
  "(sz < int (length devicetree) \<longrightarrow>
      bound_get_dt (Boot_message vmlinux mem devicetree) buf sz h
        = (Some (AssertionError ''Device tree truncated''), h))
   \<and> (int (length devicetree) \<le> sz \<and> 0 \<le> buf
        \<and> buf + int (length devicetree) \<le> int (length (shared_memory h)) \<longrightarrow>
      bound_get_dt (Boot_message vmlinux mem devicetree) buf sz h
        = (None, h\<lparr>shared_memory :=
                     take (nat buf) (shared_memory h) @ devicetree
                       @ drop (nat buf + length devicetree) (shared_memory h)\<rparr>))"
proof (intro conjI impI)
  assume "sz < int (length devicetree)"
  then show "bound_get_dt (Boot_message vmlinux mem devicetree) buf sz h
        = (Some (AssertionError ''Device tree truncated''), h)"
    by (simp add: boot_get_dt_def assert_ts_def)
next
  assume fits: "int (length devicetree) \<le> sz \<and> 0 \<le> buf
        \<and> buf + int (length devicetree) \<le> int (length (shared_memory h))"
  then have "0 \<le> sz" and "length devicetree \<le> nat sz" by linarith+
  then have whole: "ta_slice devicetree 0 sz = devicetree"
    by (simp add: ta_slice_prefix)
  from fits have "nat buf + length devicetree \<le> length (shared_memory h)" by linarith
  then have "copy_into devicetree (nat buf) (shared_memory h)
      = take (nat buf) (shared_memory h) @ devicetree
          @ drop (nat buf + length devicetree) (shared_memory h)"
    by (rule copy_into_eq)
  with fits show "bound_get_dt (Boot_message vmlinux mem devicetree) buf sz h
        = (None, h\<lparr>shared_memory :=
                     take (nat buf) (shared_memory h) @ devicetree
                       @ drop (nat buf + length devicetree) (shared_memory h)\<rparr>)"
    by (simp add: boot_get_dt_def assert_ts_def whole ta_set_def)
qed

theorem boot_get_dt_contract_witness:
  "bound_get_dt (Boot_message () () [1, 2, 3]) 2 2 blank_host
     = (Some (AssertionError ''Device tree truncated''), blank_host)
   \<and> bound_get_dt (Boot_message () () [1, 2, 3]) 2 4 blank_host
     = (None, blank_host\<lparr>shared_memory := [0, 0, 1, 2, 3, 0, 0, 0, 0, 0, 0, 0]\<rparr>)"
  using boot_get_dt_contract [of 2 "[1, 2, 3]" "()" "()" 2 blank_host]
    boot_get_dt_contract [of 4 "[1, 2, 3]" "()" "()" 2 blank_host]
  by (simp add: blank_host_def)

text \<open>
  Claim C4. In a task or secondary context, a call \<open>get_dt(offset, capacity)\<close> returns
  normally, adds one error line to the console and changes nothing else: the shared memory
  is what it was.
\<close>

theorem non_boot_get_dt_no_write:
  assumes "\<not> is_boot msg"
  shows "bound_get_dt msg buf sz h
           = (None, h\<lparr>console := console h
                        @ [Console_error ''get_dt called on non-boot thread'']\<rparr>)
       \<and> shared_memory (snd (bound_get_dt msg buf sz h)) = shared_memory h"
  using assms by (cases msg) (simp_all add: is_boot_def default_get_dt_def)

theorem non_boot_get_dt_no_write_witness:
  "\<not> is_boot (Task_message () () 7)
   \<and> shared_memory (snd (bound_get_dt (Task_message () () 7) 0 4096 blank_host))
       = shared_memory blank_host
   \<and> \<not> is_boot (Secondary_message () () 2 99)
   \<and> bound_get_dt (Secondary_message () () 2 99) 0 4096 blank_host
       = (None, blank_host\<lparr>console := [Console_error ''get_dt called on non-boot thread'']\<rparr>)"
  using non_boot_get_dt_no_write [of "Task_message () () 7" 0 4096 blank_host]
    non_boot_get_dt_no_write [of "Secondary_message () () 2 99" 0 4096 blank_host]
  by (simp add: is_boot_def blank_host_def)

section \<open>The interrupt flag\<close>

lemma run_irq_calls_flags:
  "get_irq_enabled (run_irq_calls calls insts k)
     = (if own_flags k calls = [] then get_irq_enabled (insts k) else last (own_flags k calls))"
proof (induction calls arbitrary: insts)
  case Nil
  show ?case by (simp add: own_flags_def)
next
  case (Cons c calls)
  obtain j flags where c: "c = (j, flags)" by (cases c)
  show ?case
    unfolding c run_irq_calls.simps Cons.IH
    by (simp add: own_flags_def get_irq_enabled_def set_irq_enabled_def)
qed

text \<open>
  Claim C7. After any sequence of \<open>set_irq_enabled\<close> calls made in any instantiations,
  \<open>get_irq_enabled\<close> in instantiation \<open>k\<close> returns the flag of the last call that \<open>k\<close>
  itself made, and 0 if it made none; it returns the same as if the calls of all other
  instantiations had never happened.
\<close>

theorem irq_flag_per_instantiation:
  "get_irq_enabled (run_irq_calls calls fresh_instances k)
     = (if own_flags k calls = [] then 0 else last (own_flags k calls))
   \<and> get_irq_enabled (run_irq_calls calls fresh_instances k)
     = get_irq_enabled (run_irq_calls (filter (\<lambda>c. fst c = k) calls) fresh_instances k)"
proof -
  have own: "own_flags k (filter (\<lambda>c. fst c = k) calls) = own_flags k calls"
    by (simp add: own_flags_def)
  have "get_irq_enabled (fresh_instances k) = 0"
    by (simp add: fresh_instances_def instantiate_def get_irq_enabled_def)
  then show ?thesis
    by (simp add: run_irq_calls_flags own)
qed

theorem irq_flag_per_instantiation_witness:
  "get_irq_enabled (run_irq_calls [(0, 1), (1, 5), (0, 3), (1, 0)] fresh_instances 0) = 3
   \<and> get_irq_enabled (run_irq_calls [(0, 1), (1, 5), (0, 3), (1, 0)] fresh_instances 2) = 0"
  using irq_flag_per_instantiation [of "[(0, 1), (1, 5), (0, 3), (1, 0)]" 0]
    irq_flag_per_instantiation [of "[(0, 1), (1, 5), (0, 3), (1, 0)]" 2]
  by (simp add: own_flags_def)

section \<open>The clock\<close>

lemma math_round_mono: "x \<le> y \<Longrightarrow> math_round x \<le> math_round y"
  by (simp add: math_round_def floor_mono)

lemma get_now_nsec_mono:
  assumes "mono fl" "s \<le> t"
  shows "get_now_nsec fl origin s \<le> get_now_nsec fl origin t"
proof -
  from assms have "fl (s + origin) \<le> fl (t + origin)" by (simp add: monoD)
  then have "fl (s + origin) * 200 \<le> fl (t + origin) * 200" by simp
  with assms(1) have "fl (fl (s + origin) * 200) \<le> fl (fl (t + origin) * 200)" by (rule monoD)
  then show ?thesis by (simp add: get_now_nsec_def math_round_mono)
qed

text \<open>
  Claim C5. Every value \<open>get_now_nsec\<close> returns is a multiple of 5000, and over clock
  readings that do not decrease (within one context, so with one time origin) the values
  returned do not decrease either. The rounding of the floating-point sum and product is
  any monotone function.
\<close>

theorem get_now_nsec_multiple_and_monotone:
  assumes "mono fl" and "sorted readings"
  shows "(\<forall>v \<in> set (map (get_now_nsec fl origin) readings). 5000 dvd v)
       \<and> sorted (map (get_now_nsec fl origin) readings)"
proof
  show "\<forall>v \<in> set (map (get_now_nsec fl origin) readings). 5000 dvd v"
    by (auto simp: get_now_nsec_def)
  from assms(2) show "sorted (map (get_now_nsec fl origin) readings)"
    by (induction readings) (auto intro: get_now_nsec_mono [OF assms(1)])
qed

theorem get_now_nsec_multiple_and_monotone_witness:
  "mono (\<lambda>x::real. x) \<and> sorted [0, 1 / 400, 13 / 10, 3 / 2 :: real]
   \<and> map (get_now_nsec (\<lambda>x. x) 1700000000000) [0, 1 / 400, 13 / 10, 3 / 2]
       = [1700000000000000000, 1700000000000005000, 1700000000001300000, 1700000000001500000]
   \<and> sorted [1700000000000000000, 1700000000000005000, 1700000000001300000,
             1700000000001500000 :: int]
   \<and> 5000 dvd (1700000000000005000 :: int)"
proof -
  have m: "mono (\<lambda>x::real. x)" by (simp add: mono_def)
  have s: "sorted [0, 1 / 400, 13 / 10, 3 / 2 :: real]" by simp
  have e: "map (get_now_nsec (\<lambda>x. x) 1700000000000) [0, 1 / 400, 13 / 10, 3 / 2]
       = [1700000000000000000, 1700000000000005000, 1700000000001300000, 1700000000001500000]"
    by (simp add: get_now_nsec_def math_round_def)
  from get_now_nsec_multiple_and_monotone [OF m s, of 1700000000000] m s e
  show ?thesis by simp
qed

section \<open>Spawn requests\<close>

lemma spawn_task:
  "on_worker_message vmlinux mem (Task_request task name) hist
     = hist @ [Worker_created (worker_count hist) name, Listener_attached (worker_count hist),
               Message_posted (worker_count hist) (Task_message vmlinux mem task)]"
  by (simp add: new_Worker_def listen_def postMessage_def)

lemma spawn_secondary:
  "on_worker_message vmlinux mem (Secondary_request cpu idle) hist
     = hist @ [Worker_created (worker_count hist) ''secondary'', Listener_attached (worker_count hist),
               Message_posted (worker_count hist) (Secondary_message vmlinux mem cpu idle)]"
  by (simp add: new_Worker_def listen_def postMessage_def)

lemma spawn_boot:
  "start_boot vmlinux mem devicetree
     = [Worker_created 0 ''boot'', Listener_attached 0,
        Message_posted 0 (Boot_message vmlinux mem devicetree)]"
  by (simp add: start_boot_def new_Worker_def listen_def postMessage_def worker_count_def)

text \<open>
  Claim C6. One \<open>new_worker(task, offset, length)\<close> call whose name region decodes to
  \<open>name\<close> posts exactly one request, of kind task with payload \<open>(task, name)\<close>, and the
  orchestrator's handler answers it with exactly one new worker, named \<open>name\<close>, listened
  to and sent \<open>(module, memory, task)\<close>. One \<open>bringup_secondary(cpu, idle)\<close> call posts
  exactly one request of kind secondary with payload \<open>(cpu, idle)\<close>, answered with exactly
  one new worker sent \<open>(module, memory, cpu, idle)\<close>.
\<close>

theorem spawn_requests_one_to_one:
  assumes "decode (ta_slice (shared_memory h) comm (comm + commLen)) = name"
  shows "new_worker decode task comm commLen h
           = (None, h\<lparr>posted := posted h @ [Task_request task name]\<rparr>)
       \<and> on_worker_message vmlinux mem (Task_request task name) hist
           = hist @ [Worker_created (worker_count hist) name, Listener_attached (worker_count hist),
                     Message_posted (worker_count hist) (Task_message vmlinux mem task)]
       \<and> worker_count (on_worker_message vmlinux mem (Task_request task name) hist)
           = Suc (worker_count hist)
       \<and> bringup_secondary cpu idle h
           = (None, h\<lparr>posted := posted h @ [Secondary_request cpu idle]\<rparr>)
       \<and> on_worker_message vmlinux mem (Secondary_request cpu idle) hist
           = hist @ [Worker_created (worker_count hist) ''secondary'',
                     Listener_attached (worker_count hist),
                     Message_posted (worker_count hist) (Secondary_message vmlinux mem cpu idle)]
       \<and> worker_count (on_worker_message vmlinux mem (Secondary_request cpu idle) hist)
           = Suc (worker_count hist)"
proof -
  have count: "worker_count (hist @ [Worker_created k n, Listener_attached k, Message_posted k m])
      = Suc (worker_count hist)" for k n and m :: "('a, 'b) start_message"
    by (simp add: worker_count_def)
  from assms show ?thesis
    by (simp only: spawn_task spawn_secondary count)
      (simp add: new_worker_def bringup_secondary_def)
qed

theorem spawn_requests_one_to_one_witness:
  "ascii_decode (ta_slice (shared_memory name_host) 2 (2 + 8)) = ''worker-a''
   \<and> new_worker ascii_decode 7 2 8 name_host
       = (None, name_host\<lparr>posted := [Task_request 7 ''worker-a'']\<rparr>)
   \<and> on_worker_message () () (Task_request 7 ''worker-a'') (start_boot () () [])
       = [Worker_created 0 ''boot'', Listener_attached 0, Message_posted 0 (Boot_message () () []),
          Worker_created 1 ''worker-a'', Listener_attached 1, Message_posted 1 (Task_message () () 7)]
   \<and> bringup_secondary 2 99 name_host
       = (None, name_host\<lparr>posted := [Secondary_request 2 99]\<rparr>)
   \<and> on_worker_message () () (Secondary_request 2 99) (start_boot () () [])
       = [Worker_created 0 ''boot'', Listener_attached 0, Message_posted 0 (Boot_message () () []),
          Worker_created 1 ''secondary'', Listener_attached 1,
          Message_posted 1 (Secondary_message () () 2 99)]"
proof -
  have n: "ascii_decode (ta_slice (shared_memory name_host) 2 (2 + 8)) = ''worker-a''"
    by code_simp
  have p: "posted name_host = []"
    by (simp add: name_host_def)
  from spawn_requests_one_to_one [where decode = ascii_decode and h = name_host and comm = 2
      and commLen = 8 and name = "''worker-a''" and task = 7 and vmlinux = "()" and mem = "()"
      and hist = "start_boot () () []" and cpu = 2 and idle = 99, OF n] n
  show ?thesis
    by (simp add: p spawn_boot worker_count_def new_Worker_def listen_def postMessage_def)
qed

section \<open>Every worker is listened to\<close>

lemma posts_after_listen_iff:
  "posts_after_listen hist \<longleftrightarrow>
     (\<forall>i < length hist. \<forall>w msg. hist ! i = Message_posted w msg \<longrightarrow>
        Listener_attached w \<in> set (take i hist))"
  by (auto simp: posts_after_listen_def split: event.splits)

lemma all_listened_iff:
  "all_listened hist \<longleftrightarrow>
     (\<forall>w name. Worker_created w name \<in> set hist \<longrightarrow> Listener_attached w \<in> set hist)"
  by (auto simp: all_listened_def split: event.splits)

lemma posts_after_listen_spawn:
  assumes "posts_after_listen hist"
  shows "posts_after_listen (hist @ [Worker_created k name, Listener_attached k, Message_posted k m])"
  unfolding posts_after_listen_iff
proof (intro allI impI)
  fix i w msg
  let ?new = "[Worker_created k name, Listener_attached k, Message_posted k m]"
  assume i: "i < length (hist @ ?new)" and at: "(hist @ ?new) ! i = Message_posted w msg"
  show "Listener_attached w \<in> set (take i (hist @ ?new))"
  proof (cases "i < length hist")
    case True
    with at have "hist ! i = Message_posted w msg" by (simp add: nth_append)
    with assms True have "Listener_attached w \<in> set (take i hist)"
      by (simp add: posts_after_listen_iff)
    with True show ?thesis by simp
  next
    case False
    then obtain d where d: "i = length hist + d" by (metis le_add_diff_inverse not_less)
    with i have "d < 3" by simp
    then consider "d = 0" | "d = 1" | "d = 2" by linarith
    then show ?thesis
    proof cases
      case 1 with at d show ?thesis by (simp add: nth_append)
    next
      case 2 with at d show ?thesis by (simp add: nth_append)
    next
      case 3 with at d show ?thesis by (simp add: nth_append)
    qed
  qed
qed

lemma all_listened_spawn:
  "all_listened hist \<Longrightarrow>
   all_listened (hist @ [Worker_created k name, Listener_attached k, Message_posted k m])"
  by (auto simp: all_listened_iff)

lemma deliver_invariant:
  assumes "posts_after_listen hist" "all_listened hist"
  shows "posts_after_listen (deliver vmlinux mem ev hist) \<and> all_listened (deliver vmlinux mem ev hist)"
proof (cases "snd ev")
  case (Task_request task name)
  with assms show ?thesis
    by (simp add: deliver_def spawn_task posts_after_listen_spawn all_listened_spawn
        del: on_worker_message.simps)
next
  case (Secondary_request cpu idle)
  with assms show ?thesis
    by (simp add: deliver_def spawn_secondary posts_after_listen_spawn all_listened_spawn
        del: on_worker_message.simps)
next
  case (Other_request ty)
  with assms show ?thesis by (simp add: deliver_def)
qed

lemma deliver_all_invariant:
  "posts_after_listen hist \<Longrightarrow> all_listened hist \<Longrightarrow>
   posts_after_listen (deliver_all vmlinux mem evs hist)
   \<and> all_listened (deliver_all vmlinux mem evs hist)"
  by (induction evs arbitrary: hist) (simp_all add: deliver_invariant)

lemma start_boot_invariant:
  "posts_after_listen (start_boot vmlinux mem devicetree)
   \<and> all_listened (start_boot vmlinux mem devicetree)"
proof -
  have "posts_after_listen ([] :: ('a, 'b) event list)" by (simp add: posts_after_listen_def)
  from posts_after_listen_spawn [OF this, of 0 "''boot''" "Boot_message vmlinux mem devicetree"]
  show ?thesis by (simp add: spawn_boot all_listened_def)
qed

lemma orchestrate_invariant:
  "posts_after_listen (orchestrate vmlinux mem devicetree evs)
   \<and> all_listened (orchestrate vmlinux mem devicetree evs)"
proof -
  have "posts_after_listen (start_boot vmlinux mem devicetree)"
    and "all_listened (start_boot vmlinux mem devicetree)"
    using start_boot_invariant [of vmlinux mem devicetree] by simp_all
  then show ?thesis
    unfolding orchestrate_def by (rule deliver_all_invariant)
qed

lemma example_history:
  "orchestrate () () [] example_requests
     = [Worker_created 0 ''boot'', Listener_attached 0, Message_posted 0 (Boot_message () () []),
        Worker_created 1 ''worker-a'', Listener_attached 1, Message_posted 1 (Task_message () () 7),
        Worker_created 2 ''secondary'', Listener_attached 2,
        Message_posted 2 (Secondary_message () () 2 99)]"
  by (simp add: example_requests_def orchestrate_def deliver_def spawn_boot worker_count_def
      new_Worker_def listen_def postMessage_def)

text \<open>
  Claim C10. In the history of any run of the orchestrator (the boot worker, then any
  messages from any workers in any order), every start message was posted after the
  listener of its worker was attached; every worker created, of whatever kind, has the
  listener; and a task or secondary request arriving from any worker created is handled:
  it adds exactly one new worker, listened to and then sent its start message.
\<close>

theorem every_spawned_worker_listened:
  assumes "hist = orchestrate vmlinux mem devicetree evs"
  shows "(\<forall>i < length hist. \<forall>w msg. hist ! i = Message_posted w msg \<longrightarrow>
            Listener_attached w \<in> set (take i hist))
       \<and> (\<forall>w name. Worker_created w name \<in> set hist \<longrightarrow>
            Listener_attached w \<in> set hist
          \<and> (\<forall>task tname. deliver vmlinux mem (w, Task_request task tname) hist
               = hist @ [Worker_created (worker_count hist) tname,
                         Listener_attached (worker_count hist),
                         Message_posted (worker_count hist) (Task_message vmlinux mem task)])
          \<and> (\<forall>cpu idle. deliver vmlinux mem (w, Secondary_request cpu idle) hist
               = hist @ [Worker_created (worker_count hist) ''secondary'',
                         Listener_attached (worker_count hist),
                         Message_posted (worker_count hist)
                           (Secondary_message vmlinux mem cpu idle)]))"
proof -
  from orchestrate_invariant [of vmlinux mem devicetree evs] assms
  have p: "posts_after_listen hist" and a: "all_listened hist" by simp_all
  from p have first: "\<forall>i < length hist. \<forall>w msg. hist ! i = Message_posted w msg \<longrightarrow>
            Listener_attached w \<in> set (take i hist)"
    by (simp add: posts_after_listen_iff)
  have second: "Listener_attached w \<in> set hist" if "Worker_created w name \<in> set hist" for w name
    using a that by (auto simp: all_listened_iff)
  show ?thesis
    using first second
    by (simp add: deliver_def spawn_task spawn_secondary del: on_worker_message.simps)
qed

theorem every_spawned_worker_listened_witness:
  "orchestrate () () [] example_requests ! 8 = Message_posted 2 (Secondary_message () () 2 99)
   \<and> Listener_attached 2 \<in> set (take 8 (orchestrate () () [] example_requests))
   \<and> Worker_created 2 ''secondary'' \<in> set (orchestrate () () [] example_requests)
   \<and> deliver () () (2, Task_request 8 ''kworker'') (orchestrate () () [] example_requests)
       = orchestrate () () [] example_requests
           @ [Worker_created 3 ''kworker'', Listener_attached 3, Message_posted 3 (Task_message () () 8)]"
proof -
  let ?hist = "orchestrate () () [] example_requests"
  note inst = every_spawned_worker_listened [OF refl, of "()" "()" "[]" example_requests]
  have at: "?hist ! 8 = Message_posted 2 (Secondary_message () () 2 99)"
    and len: "8 < length ?hist"
    and made: "Worker_created 2 ''secondary'' \<in> set ?hist"
    and count: "worker_count ?hist = 3"
    by (simp_all add: example_history worker_count_def)
  from inst at len have "Listener_attached 2 \<in> set (take 8 ?hist)" by blast
  moreover from inst made
  have "deliver () () (2, Task_request 8 ''kworker'') ?hist
       = ?hist @ [Worker_created (worker_count ?hist) ''kworker'',
                  Listener_attached (worker_count ?hist),
                  Message_posted (worker_count ?hist) (Task_message () () 8)]"
    by blast
  ultimately show ?thesis using at made by (simp add: count)
qed

section \<open>The boot device tree\<close>



section \<open>The device tree round trip\<close>

lemma char_of_byte_of_char [simp]: "char_of_byte (byte_of_char c) = c"
proof -
  have "of_char c < (256 :: nat)" by (rule nat_of_char_less_256)
  then have "unat (of_nat (of_char c) :: byte) = of_char c"
    by (simp add: unat_of_nat)
  then show ?thesis by (simp add: char_of_byte_def byte_of_char_def)
qed

lemma byte_of_char_eq_0: "byte_of_char c = 0 \<longleftrightarrow> c = CHR 0x00"
proof
  assume "byte_of_char c = 0"
  then have "char_of_byte (byte_of_char c) = char_of_byte 0" by (rule arg_cong)
  then have "c = char_of_byte 0" by (simp only: char_of_byte_of_char)
  moreover have "char_of (0::nat) = CHR 0x00"
    by (rule of_char_eqI [where ?'a = nat]) simp
  ultimately show "c = CHR 0x00" by (simp add: char_of_byte_def)
next
  assume "c = CHR 0x00"
  then show "byte_of_char c = 0" by (simp add: byte_of_char_def)
qed

lemma length_be32 [simp]: "length (be32 n) = 4"
  by (simp add: be32_def)

lemma read_u32_be32:
  assumes "n < 4294967296"
  shows "read_u32 (be32 n @ rest) = Some (n, rest)"
proof -
  have b: "unat (of_nat k :: byte) = k mod 256" for k
    by (simp add: unat_of_nat)
  define q1 q2 q3 where "q1 = n div 256" and "q2 = q1 div 256" and "q3 = q2 div 256"
  have d2: "n div 65536 = q2" and d3: "n div 16777216 = q3"
    by (simp_all add: q1_def q2_def q3_def div_mult2_eq)
  have "q3 < 256"
    using assms unfolding q3_def q2_def q1_def by (simp add: div_mult2_eq less_mult_imp_div_less)
  then have m3: "q3 mod 256 = q3" by simp
  define r0 r1 r2 where "r0 = n mod 256" and "r1 = q1 mod 256" and "r2 = q2 mod 256"
  have e1: "n = q1 * 256 + r0" and e2: "q1 = q2 * 256 + r1" and e3: "q2 = q3 * 256 + r2"
    by (simp_all add: q1_def q2_def q3_def r0_def r1_def r2_def)
  have "((q3 * 256 + r2) * 256 + r1) * 256 + r0 = n"
    by (simp only: e3 [symmetric] e2 [symmetric] e1 [symmetric])
  then have total: "((q3 * 256 + q2 mod 256) * 256 + q1 mod 256) * 256 + n mod 256 = n"
    by (simp only: r0_def r1_def r2_def)
  have u: "unat (of_nat (n div 16777216) :: byte) = q3"
    "unat (of_nat (n div 65536) :: byte) = q2 mod 256"
    "unat (of_nat (n div 256) :: byte) = q1 mod 256"
    "unat (of_nat n :: byte) = n mod 256"
    by (simp_all only: b d2 d3 m3 q1_def [symmetric])
  show ?thesis
    by (simp only: be32_def append.simps read_u32.simps u total)
qed

lemma take_cstring_found:
  "0 \<notin> set bs \<Longrightarrow> take_cstring (bs @ 0 # rest) = Some bs"
  by (induction bs) auto

lemma nul_free_bytes: "nul_free s \<Longrightarrow> 0 \<notin> set (map byte_of_char s)"
  by (auto simp: nul_free_def byte_of_char_eq_0)

lemma map_char_of_byte [simp]: "map char_of_byte (map byte_of_char s) = s"
  by (induction s) simp_all


lemma char_of_byte_comp [simp]: "char_of_byte \<circ> byte_of_char = id"
  by (rule ext) simp

lemma structure_block_Cons:
  "structure_block (t # ts) = token_bytes t @ structure_block ts"
  by (simp add: structure_block_def)

lemma drop_padded: "drop (length v + p) (v @ replicate p z @ rest) = rest"
  by simp

lemma lex_begin:
  assumes "nul_free name"
  shows "lex_tokens (Suc fuel) (token_bytes (Tok_begin_node name) @ rest)
       = map_option (Cons (Tok_begin_node name)) (lex_tokens fuel rest)"
proof -
  let ?nb = "map byte_of_char name"
  let ?p = "pad4 (length name + 1)"
  have r: "read_u32 (be32 1 @ ?nb @ 0 # replicate ?p 0 @ rest)
      = Some (1, ?nb @ 0 # replicate ?p 0 @ rest)"
    by (rule read_u32_be32) simp
  have c: "take_cstring (?nb @ 0 # replicate ?p 0 @ rest) = Some ?nb"
    using assms by (intro take_cstring_found nul_free_bytes)
  have d: "drop (length name + 1 + ?p) (?nb @ 0 # replicate ?p 0 @ rest) = rest"
    by simp
  show ?thesis
    by (simp add: r c Let_def del: One_nat_def) simp
qed

lemma lex_prop:
  assumes "nameoff < 4294967296" "length v < 4294967296"
  shows "lex_tokens (Suc fuel) (token_bytes (Tok_prop nameoff v) @ rest)
       = map_option (Cons (Tok_prop nameoff v)) (lex_tokens fuel rest)"
proof -
  let ?p = "pad4 (length v)"
  let ?tail = "v @ replicate ?p 0 @ rest"
  have r1: "read_u32 (be32 3 @ be32 (length v) @ be32 nameoff @ ?tail)
      = Some (3, be32 (length v) @ be32 nameoff @ ?tail)"
    by (rule read_u32_be32) simp
  have r2: "read_u32 (be32 (length v) @ be32 nameoff @ ?tail) = Some (length v, be32 nameoff @ ?tail)"
    using assms(2) by (rule read_u32_be32)
  have r3: "read_u32 (be32 nameoff @ ?tail) = Some (nameoff, ?tail)"
    using assms(1) by (rule read_u32_be32)
  show ?thesis
    by (simp add: r1 r2 r3 Let_def del: One_nat_def)
qed

lemma lex_end_node:
  "lex_tokens (Suc fuel) (token_bytes Tok_end_node @ rest)
     = map_option (Cons Tok_end_node) (lex_tokens fuel rest)"
proof -
  have "read_u32 (be32 2 @ rest) = Some (2, rest)" by (rule read_u32_be32) simp
  then show ?thesis by (simp del: One_nat_def)
qed

lemma lex_nop:
  "lex_tokens (Suc fuel) (token_bytes Tok_nop @ rest)
     = map_option (Cons Tok_nop) (lex_tokens fuel rest)"
proof -
  have "read_u32 (be32 4 @ rest) = Some (4, rest)" by (rule read_u32_be32) simp
  then show ?thesis by (simp del: One_nat_def)
qed

lemma lex_end: "lex_tokens (Suc fuel) (be32 9) = Some []"
proof -
  have "read_u32 (be32 9 @ []) = Some (9, [])" by (rule read_u32_be32) simp
  then show ?thesis by (simp del: One_nat_def)
qed

lemma lex_token:
  "token_ok t \<Longrightarrow>
   lex_tokens (Suc fuel) (token_bytes t @ rest) = map_option (Cons t) (lex_tokens fuel rest)"
  by (cases t) (simp_all only: token_ok.simps lex_begin lex_prop lex_end_node lex_nop)

lemma lex_structure_block:
  "list_all token_ok toks \<Longrightarrow> length toks < fuel \<Longrightarrow>
   lex_tokens fuel (structure_block toks) = Some toks"
proof (induction toks arbitrary: fuel)
  case Nil
  then obtain f where "fuel = Suc f" by (cases fuel) auto
  then show ?case by (simp add: structure_block_def lex_end del: lex_tokens.simps)
next
  case (Cons t ts)
  then obtain f where f: "fuel = Suc f" by (cases fuel) auto
  with Cons.prems have "length ts < f" and "list_all token_ok ts" and "token_ok t" by simp_all
  then show ?case
    unfolding f structure_block_Cons
    by (simp add: lex_token Cons.IH del: lex_tokens.simps)
qed

lemma length_token_bytes: "4 \<le> length (token_bytes t)"
  by (cases t) simp_all

lemma length_structure_block: "length toks < length (structure_block toks)"
proof (induction toks)
  case Nil
  show ?case by (simp add: structure_block_def)
next
  case (Cons t ts)
  with length_token_bytes [of t] show ?case by (simp add: structure_block_Cons)
qed


lemma strings_block_Cons:
  "strings_block (n # ns) = map byte_of_char n @ 0 # strings_block ns"
  by (simp add: strings_block_def)

lemma cstring_at_name_offset:
  "k \<in> set names \<Longrightarrow> list_all nul_free names \<Longrightarrow>
   cstring_at (strings_block names) (name_offset names k) = Some k"
proof (induction names)
  case Nil
  then show ?case by simp
next
  case (Cons n ns)
  show ?case
  proof (cases "n = k")
    case True
    with Cons.prems have "take_cstring (map byte_of_char k @ 0 # strings_block ns)
        = Some (map byte_of_char k)"
      by (intro take_cstring_found nul_free_bytes) simp
    with True show ?thesis by (simp add: cstring_at_def strings_block_Cons)
  next
    case False
    with Cons.prems have "k \<in> set ns" and "list_all nul_free ns" by simp_all
    then have "cstring_at (strings_block ns) (name_offset ns k) = Some k" by (rule Cons.IH)
    with False show ?thesis by (simp add: cstring_at_def strings_block_Cons)
  qed
qed

lemma name_offset_bound:
  "k \<in> set names \<Longrightarrow> name_offset names k < length (strings_block names)"
  by (induction names) (auto simp: strings_block_Cons)

lemma parse_props:
  assumes "\<And>p. p \<in> set props \<Longrightarrow> cstring_at strings (name_offset names (fst p)) = Some (fst p)"
  shows "parse_tokens strings
           (map (\<lambda>p. Tok_prop (name_offset names (fst p)) (snd p)) props @ rest)
           ((nm, ps, []) # below)
       = parse_tokens strings rest ((nm, ps @ props, []) # below)"
  using assms by (induction props arbitrary: ps) simp_all

lemma parse_children:
  assumes "\<And>c rest nm ps cs below. c \<in> set children \<Longrightarrow>
             parse_tokens strings (emit names (fst c) (snd c) @ rest) ((nm, ps, cs) # below)
               = parse_tokens strings rest ((nm, ps, cs @ [c]) # below)"
  shows "parse_tokens strings
           (concat (map (\<lambda>c. emit names (fst c) (snd c)) children) @ rest)
           ((nm, ps, cs) # below)
       = parse_tokens strings rest ((nm, ps, cs @ children) # below)"
  using assms
proof (induction children arbitrary: cs)
  case Nil
  show ?case by simp
next
  case (Cons c children)
  have "parse_tokens strings
           (concat (map (\<lambda>c. emit names (fst c) (snd c)) (c # children)) @ rest)
           ((nm, ps, cs) # below)
      = parse_tokens strings
           (emit names (fst c) (snd c)
              @ (concat (map (\<lambda>c. emit names (fst c) (snd c)) children) @ rest))
           ((nm, ps, cs) # below)"
    by simp
  also have "\<dots> = parse_tokens strings
           (concat (map (\<lambda>c. emit names (fst c) (snd c)) children) @ rest)
           ((nm, ps, cs @ [c]) # below)"
    by (rule Cons.prems) simp
  also have "\<dots> = parse_tokens strings rest ((nm, ps, (cs @ [c]) @ children) # below)"
    by (rule Cons.IH) (rule Cons.prems, simp)
  finally show ?case by simp
qed

lemma parse_emit:
  assumes "\<And>k. k \<in> set (prop_names n) \<Longrightarrow> cstring_at strings (name_offset names k) = Some k"
  shows "parse_tokens strings (emit names name n @ rest) ((nm, ps, cs) # below)
       = parse_tokens strings rest ((nm, ps, cs @ [(name, n)]) # below)"
  using assms
proof (induction n arbitrary: name rest nm ps cs below)
  case (Fdt_node props children)
  have props: "cstring_at strings (name_offset names (fst p)) = Some (fst p)"
    if "p \<in> set props" for p
    using that by (intro Fdt_node.prems) auto
  have kids: "parse_tokens strings (emit names (fst c) (snd c) @ rest') ((nm', ps', cs') # below')
      = parse_tokens strings rest' ((nm', ps', cs' @ [c]) # below')"
    if "c \<in> set children" for c rest' nm' ps' cs' below'
  proof -
    have "parse_tokens strings (emit names (fst c) (snd c) @ rest') ((nm', ps', cs') # below')
      = parse_tokens strings rest' ((nm', ps', cs' @ [(fst c, snd c)]) # below')"
    proof (rule Fdt_node.IH)
      show "c \<in> set children" by (rule that)
      show "snd c \<in> Basic_BNFs.snds c" by (cases c) simp
      fix k assume "k \<in> set (prop_names (snd c))"
      with that show "cstring_at strings (name_offset names k) = Some k"
        by (intro Fdt_node.prems) auto
    qed
    then show ?thesis by simp
  qed
  let ?ptoks = "map (\<lambda>p. Tok_prop (name_offset names (fst p)) (snd p)) props"
  let ?ctoks = "concat (map (\<lambda>c. emit names (fst c) (snd c)) children)"
  have "parse_tokens strings (emit names name (Fdt_node props children) @ rest)
          ((nm, ps, cs) # below)
      = parse_tokens strings (?ptoks @ (?ctoks @ Tok_end_node # rest))
          ((name, [], []) # (nm, ps, cs) # below)"
    by simp
  also have "\<dots> = parse_tokens strings (?ctoks @ Tok_end_node # rest)
          ((name, [] @ props, []) # (nm, ps, cs) # below)"
    by (rule parse_props) (rule props)
  also have "\<dots> = parse_tokens strings (Tok_end_node # rest)
          ((name, [] @ props, [] @ children) # (nm, ps, cs) # below)"
    by (rule parse_children) (rule kids)
  also have "\<dots> = parse_tokens strings rest
          ((nm, ps, cs @ [(name, Fdt_node props children)]) # below)"
    by simp
  finally show ?case .
qed

lemma parse_root:
  assumes "\<And>k. k \<in> set (prop_names rootn) \<Longrightarrow> cstring_at strings (name_offset names k) = Some k"
  shows "parse_tokens strings (emit names [] rootn) [([], [], [])] = Some rootn"
proof -
  have "parse_tokens strings (emit names [] rootn @ []) (([], [], []) # [])
      = parse_tokens strings [] (([], [], [] @ [([], rootn)]) # [])"
    using assms by (rule parse_emit)
  then show ?thesis by simp
qed


lemma names_ok_node_of: "names_ok e \<Longrightarrow> fdt_names_ok (node_of e)"
proof (induction e rule: node_of.induct)
  case (1 es)
  then show ?case by (auto simp: list_all_iff)
qed simp_all

lemma emit_shape:
  "nul_free name \<Longrightarrow> fdt_names_ok n \<Longrightarrow> set (prop_names n) \<subseteq> set names \<Longrightarrow>
   list_all (token_shape_ok names) (emit names name n)"
proof (induction n arbitrary: name)
  case (Fdt_node props children)
  have p: "list_all (token_shape_ok names)
      (map (\<lambda>p. Tok_prop (name_offset names (fst p)) (snd p)) props)"
    using Fdt_node.prems(3) by (auto simp: list_all_iff intro!: name_offset_bound)
  have c: "list_all (token_shape_ok names) (emit names (fst c) (snd c))" if "c \<in> set children" for c
  proof (rule Fdt_node.IH)
    show "c \<in> set children" by (rule that)
    show "snd c \<in> Basic_BNFs.snds c" by (cases c) simp
    from that Fdt_node.prems(2) show "nul_free (fst c)" and "fdt_names_ok (snd c)"
      by (auto simp: list_all_iff)
    from that Fdt_node.prems(3) show "set (prop_names (snd c)) \<subseteq> set names" by auto
  qed
  from p c Fdt_node.prems(1) show ?case by (auto simp: list_all_iff)
qed

lemma prop_names_nul_free: "fdt_names_ok n \<Longrightarrow> list_all nul_free (prop_names n)"
proof (induction n)
  case (Fdt_node props children)
  have "list_all nul_free (prop_names (snd c))" if "c \<in> set children" for c
  proof (rule Fdt_node.IH)
    show "c \<in> set children" by (rule that)
    show "snd c \<in> Basic_BNFs.snds c" by (cases c) simp
    from that Fdt_node.prems show "fdt_names_ok (snd c)" by (auto simp: list_all_iff)
  qed
  with Fdt_node.prems show ?case by (auto simp: list_all_iff)
qed

lemma token_in_block:
  "t \<in> set toks \<Longrightarrow> length (token_bytes t) \<le> length (structure_block toks)"
  by (induction toks) (auto simp: structure_block_Cons)

lemma payload_in_token: "length v \<le> length (token_bytes (Tok_prop nameoff v))"
  by simp

lemma tokens_ok:
  assumes "list_all (token_shape_ok names) toks"
    and "length (structure_block toks) < 4294967296"
    and "length (strings_block names) < 4294967296"
  shows "list_all token_ok toks"
  unfolding list_all_iff
proof
  fix t assume t: "t \<in> set toks"
  with assms(1) have shape: "token_shape_ok names t" by (simp add: list_all_iff)
  from t have len: "length (token_bytes t) \<le> length (structure_block toks)" by (rule token_in_block)
  show "token_ok t"
  proof (cases t)
    case (Tok_prop nameoff v)
    from len have "length (token_bytes (Tok_prop nameoff v)) \<le> length (structure_block toks)"
      by (simp only: Tok_prop)
    with payload_in_token [of v nameoff] assms(2) have "length v < 4294967296" by linarith
    moreover from shape Tok_prop assms(3) have "nameoff < 4294967296" by simp
    ultimately show ?thesis using Tok_prop by simp
  qed (use shape in simp_all)
qed

lemma length_fdt_header [simp]: "length (fdt_header a b) = 40"
  by (simp add: fdt_header_def)

lemma drop4_be32 [simp]: "drop 4 (be32 n @ rest) = rest"
  by simp

lemma header_fields:
  assumes "56 + a + b < 4294967296"
  shows "read_u32 (fdt_header a b @ rest) = Some (0xd00dfeed, drop 4 (fdt_header a b @ rest))"
    and "read_u32 (drop 4 (fdt_header a b @ rest)) = Some (56 + a + b, drop 8 (fdt_header a b @ rest))"
    and "read_u32 (drop 8 (fdt_header a b @ rest)) = Some (56, drop 12 (fdt_header a b @ rest))"
    and "read_u32 (drop 12 (fdt_header a b @ rest)) = Some (56 + a, drop 16 (fdt_header a b @ rest))"
    and "read_u32 (drop 20 (fdt_header a b @ rest)) = Some (17, drop 24 (fdt_header a b @ rest))"
    and "read_u32 (drop 24 (fdt_header a b @ rest)) = Some (16, drop 28 (fdt_header a b @ rest))"
    and "read_u32 (drop 32 (fdt_header a b @ rest)) = Some (b, drop 36 (fdt_header a b @ rest))"
    and "read_u32 (drop 36 (fdt_header a b @ rest)) = Some (a, rest)"
  using assms by (simp_all add: fdt_header_def read_u32_be32)

text \<open>Every property value is read back from its payload as it was given.\<close>

lemma read_cells_be32:
  assumes "n < 4294967296"
  shows "read_cells (be32 n @ rest) = map_option (Cons (int n)) (read_cells rest)"
proof -
  obtain a b c d where q: "be32 n = [a, b, c, d]" by (simp add: be32_def)
  from read_u32_be32 [OF assms, of rest]
  have "((unat a * 256 + unat b) * 256 + unat c) * 256 + unat d = n"
    by (simp add: q)
  then show ?thesis by (simp add: q)
qed

lemma read_cells_payload:
  "list_all in_cell_range ns \<Longrightarrow> read_cells (concat (map (\<lambda>n. be32 (nat n)) ns)) = Some ns"
proof (induction ns)
  case Nil
  show ?case by simp
next
  case (Cons n ns)
  from Cons.prems have "in_cell_range n" and rest: "list_all in_cell_range ns"
    by simp_all
  then have range: "0 \<le> n" "n < 4294967296"
    by (simp_all add: in_cell_range_def)
  from range have small: "nat n < 4294967296" by linarith
  from range have same: "int (nat n) = n" by simp
  from rest have "read_cells (concat (map (\<lambda>n. be32 (nat n)) ns)) = Some ns" by (rule Cons.IH)
  then show ?case by (simp add: read_cells_be32 [OF small] range)
qed

lemma payload_read_back:
  "cells_ok v \<Longrightarrow> \<not> is_node v \<Longrightarrow> decode_as v (payload v) = Some v"
  by (cases v) (simp_all add: read_cells_payload)

lemma small_tree_valid: "valid_tree 4096 small_tree"
  by (simp add: valid_tree_def encoded_size_def small_tree_def nul_free_def in_cell_range_def
      structure_block_def strings_block_def pad4_def)

lemma small_tree_structure:
  "node_of (Dt_node small_tree)
     = Fdt_node []
         [(''chosen'', Fdt_node [(''rng-seed'', [1, 2, 3, 4, 5]),
                                 (''bootargs'', map byte_of_char ''no_hash_pointers'' @ [0])] []),
          (''aliases'', Fdt_node [] []),
          (''memory'', Fdt_node [(''device_type'', map byte_of_char ''memory'' @ [0]),
                                 (''reg'', be32 0 @ be32 67108864)] [])]"
  by (simp add: small_tree_def)


text \<open>
  Claim C2. For every valid input tree (names without a null character, numbers that fit
  a 32-bit cell, a blob within a declared maximum below \<open>2^32\<close>), the encoder returns a
  blob, and the reference decoder reads from that blob exactly the node/property structure
  of the tree: every node under its name, with its properties by name and payload bytes
  and its child nodes, in the order of the input.
\<close>

theorem device_tree_round_trip:
  assumes "valid_tree max_size tree" and "max_size < 4294967296"
  shows "\<exists>blob. generateDeviceTree max_size tree = Inr blob
           \<and> fdt_parse blob = Some (node_of (Dt_node tree))"
proof -
  define rootn where "rootn = node_of (Dt_node tree)"
  define names where "names = remdups (prop_names rootn)"
  define strings where "strings = strings_block names"
  define toks where "toks = emit names [] rootn"
  define struct where "struct = structure_block toks"
  define blob where "blob = fdt_header (length struct) (length strings) @ replicate 16 0 @ struct @ strings"
  from assms(1) have nm: "names_ok (Dt_node tree)" and cells: "cells_ok (Dt_node tree)"
    and size: "56 + length struct + length strings \<le> max_size"
    by (simp_all add: valid_tree_def encoded_size_def Let_def rootn_def names_def strings_def
        toks_def struct_def)
  have enc: "generateDeviceTree max_size tree = Inr blob"
    using cells size
    by (simp add: generateDeviceTree_def Let_def rootn_def names_def strings_def toks_def
        struct_def blob_def)
  from size assms(2) have total: "56 + length struct + length strings < 4294967296" by linarith
  have names_free: "list_all nul_free names"
  proof -
    from nm have "fdt_names_ok rootn" unfolding rootn_def by (rule names_ok_node_of)
    then have "list_all nul_free (prop_names rootn)" by (rule prop_names_nul_free)
    then show ?thesis by (simp add: names_def list_all_iff)
  qed
  have resolve: "cstring_at strings (name_offset names k) = Some k" if "k \<in> set (prop_names rootn)" for k
    unfolding strings_def using that names_free by (intro cstring_at_name_offset) (simp_all add: names_def)
  have parse: "parse_tokens strings toks [([], [], [])] = Some rootn"
    unfolding toks_def using resolve by (rule parse_root)
  have shape: "list_all (token_shape_ok names) toks"
    unfolding toks_def
  proof (rule emit_shape)
    show "nul_free []" by (simp add: nul_free_def)
    from nm show "fdt_names_ok rootn" unfolding rootn_def by (rule names_ok_node_of)
    show "set (prop_names rootn) \<subseteq> set names" by (simp add: names_def)
  qed
  have "list_all token_ok toks"
    using shape total by (intro tokens_ok [of names]) (simp_all add: struct_def strings_def)
  moreover have "length toks < length struct"
    unfolding struct_def by (rule length_structure_block)
  ultimately have lex: "lex_tokens (length struct) struct = Some toks"
    unfolding struct_def by (rule lex_structure_block)
  have len: "length blob = 56 + length struct + length strings"
    by (simp add: blob_def)
  have st: "take (length struct) (drop 56 blob) = struct"
    and sr: "take (length strings) (drop (56 + length struct) blob) = strings"
    by (simp_all add: blob_def)
  note fields = header_fields [OF total, of "replicate 16 0 @ struct @ strings", folded blob_def]
  have "fdt_parse blob = Some rootn"
    unfolding fdt_parse_def by (simp add: fields len st sr lex parse Let_def)
  with enc show ?thesis unfolding rootn_def by blast
qed


theorem device_tree_round_trip_witness:
  "valid_tree 4096 small_tree \<and> (4096 :: nat) < 4294967296
   \<and> (\<exists>blob. generateDeviceTree 4096 small_tree = Inr blob
         \<and> fdt_parse blob
             = Some (Fdt_node []
                 [(''chosen'', Fdt_node [(''rng-seed'', [1, 2, 3, 4, 5]),
                                         (''bootargs'', map byte_of_char ''no_hash_pointers'' @ [0])] []),
                  (''aliases'', Fdt_node [] []),
                  (''memory'', Fdt_node [(''device_type'', map byte_of_char ''memory'' @ [0]),
                                         (''reg'', be32 0 @ be32 67108864)] [])]))"
proof -
  have small: "(4096 :: nat) < 4294967296" by simp
  from device_tree_round_trip [OF small_tree_valid small] small_tree_valid small
  show ?thesis by (simp only: small_tree_structure)
qed

end
